theory Spec2Isabelle
  imports Main "HOL-Library.Multiset" "HOL-Library.AList" "HOL-Library.Sublist"
begin

section \<open>Values on the wire\<close>

text \<open>
  The connection layer of nodriver (\<^verbatim>\<open>nodriver/core/connection.py\<close>) exchanges JSON
  objects with one peer. The scalar JSON values are modelled as Python sees them after
  \<^verbatim>\<open>json.loads\<close>: \<^verbatim>\<open>None\<close>, booleans, unbounded integers and strings. A JSON object
  is an association list in key order (a Python \<^verbatim>\<open>dict\<close> keeps insertion order).
\<close>

datatype jval = JNone | JBool bool | JInt int | JStr string

type_synonym raw = "(string \<times> jval) list"

text \<open>Python's \<^verbatim>\<open>str(n)\<close> for an integer: decimal digits, a minus sign when negative.\<close>

definition digit_char :: "nat \<Rightarrow> char" where
  "digit_char d = ''0123456789'' ! d"

fun str_nat :: "nat \<Rightarrow> string" where
  "str_nat n = (if n < 10 then [digit_char n] else str_nat (n div 10) @ [digit_char (n mod 10)])"

declare str_nat.simps [simp del]

definition str_int :: "int \<Rightarrow> string" where
  "str_int i = (if i < 0 then CHR ''-'' # str_nat (nat (- i)) else str_nat (nat i))"

text \<open>\<^verbatim>\<open>str(v)\<close>, as an f-string renders a value, and \<^verbatim>\<open>bool(v)\<close>, as \<^verbatim>\<open>if v\<close> tests it.\<close>

fun py_str :: "jval \<Rightarrow> string" where
  "py_str JNone = ''None''"
| "py_str (JBool b) = (if b then ''True'' else ''False'')"
| "py_str (JInt i) = str_int i"
| "py_str (JStr s) = s"

fun truthy :: "jval \<Rightarrow> bool" where
  "truthy JNone = False"
| "truthy (JBool b) = b"
| "truthy (JInt i) = (i \<noteq> 0)"
| "truthy (JStr s) = (s \<noteq> [])"

text \<open>\<^verbatim>\<open>d.get(k, None)\<close> on a dict of scalars.\<close>

definition dict_get_none :: "raw \<Rightarrow> string \<Rightarrow> jval" where
  "dict_get_none d k = (case map_of d k of None \<Rightarrow> JNone | Some v \<Rightarrow> v)"

section \<open>ProtocolException\<close>

text \<open>
  The constructor receives \<^verbatim>\<open>response["error"]\<close>. It distinguishes a dict, an object with
  a \<^verbatim>\<open>to_json\<close> method (whose dump is a tree of already rendered leaves) and anything else.
\<close>

datatype tree = Leaf string | Node "(string \<times> tree) list"

datatype payload = Dict raw | Schema "(string \<times> tree) list" | Plain jval

record ProtocolException =
  message :: jval
  code :: jval

fun ser_items :: "nat \<Rightarrow> (string \<times> tree) list \<Rightarrow> string"
and ser_value :: "nat \<Rightarrow> tree \<Rightarrow> string" where
  "ser_items d [] = []"
| "ser_items d ((k, v) # kvs) =
     replicate d (CHR 0x09) @ k @ '': '' @ ser_value d v @ [CHR 0x0A] @ ser_items d kvs"
| "ser_value d (Leaf s) = s"
| "ser_value d (Node kvs) = CHR 0x0A # ser_items (Suc d) kvs"

definition serialize :: "(string \<times> tree) list \<Rightarrow> string" where
  "serialize obj = CHR 0x0A # ser_items 0 obj"

fun ProtocolException_init :: "payload \<Rightarrow> ProtocolException" where
  "ProtocolException_init (Dict d) =
     \<lparr>message = dict_get_none d ''message'', code = dict_get_none d ''code''\<rparr>"
| "ProtocolException_init (Schema obj) = \<lparr>message = JStr (serialize obj), code = JNone\<rparr>"
| "ProtocolException_init (Plain v) = \<lparr>message = JStr (py_str v), code = JNone\<rparr>"

definition ProtocolException_str :: "ProtocolException \<Rightarrow> string" where
  "ProtocolException_str e =
     (if truthy (code e) then py_str (message e) @ '' [code: '' @ py_str (code e) @ '']''
      else py_str (message e))"

section \<open>Transaction\<close>

text \<open>
  A Transaction is an \<^verbatim>\<open>asyncio.Future\<close>: pending, holding a result, holding an exception,
  or cancelled. \<^verbatim>\<open>done()\<close> is true in every state but the first.
\<close>

datatype future = Pending | Result jval | Failed ProtocolException | Cancelled

fun fut_done :: "future \<Rightarrow> bool" where
  "fut_done Pending = False"
| "fut_done _ = True"

text \<open>
  The command generator is supplied by the cdp package. Its first step yields the command;
  its second step, \<^verbatim>\<open>send(result)\<close>, ends in one of four ways: it returns a value
  (\<^verbatim>\<open>StopIteration\<close>), a key is missing (\<^verbatim>\<open>KeyError\<close>), another exception is raised, or
  it yields once more.
\<close>

datatype gen_step = StopIteration jval | GenKeyError string | GenRaise string | GenYield

record command =
  cmd_method :: string
  cmd_params :: "raw option"
  cmd_send :: "raw \<Rightarrow> gen_step"

record transaction =
  cdp_obj :: "raw \<Rightarrow> gen_step"
  tx_method :: string
  tx_params :: raw
  tx_id :: "int option"
  fut :: future

definition Transaction_init :: "command \<Rightarrow> transaction" where
  "Transaction_init cmd =
     \<lparr>cdp_obj = cmd_send cmd, tx_method = cmd_method cmd,
      tx_params = (case cmd_params cmd of None \<Rightarrow> [] | Some p \<Rightarrow> p),
      tx_id = None, fut = Pending\<rparr>"

text \<open>A decoded frame: the keys the connection looks at, and the remaining ones.\<close>

record frame =
  msg_id :: "int option"
  msg_error :: "payload option"
  msg_result :: "raw option"
  msg_rest :: raw

text \<open>The exceptions of the model. \<open>SystemExiting\<close> stands for the classes outside
  \<^verbatim>\<open>Exception\<close> (\<^verbatim>\<open>KeyboardInterrupt\<close>, \<^verbatim>\<open>SystemExit\<close>, \<^verbatim>\<open>CancelledError\<close>).\<close>

datatype pyexc =
    KeyError string
  | KeyNotFound string raw
  | TypeError
  | AttributeError
  | ProtocolError ProtocolException
  | ConnectionClosedError
  | OtherException string
  | SystemExiting string

text \<open>
  \<^verbatim>\<open>Transaction.__call__(**response)\<close>. The \<^verbatim>\<open>InvalidStateError\<close> handlers cannot fire
  after the \<^verbatim>\<open>done()\<close> test in one thread of control, so they have no branch here. A frame
  with neither key raises \<^verbatim>\<open>KeyError('result')\<close> from inside the handler.
\<close>

definition Transaction_call :: "transaction \<Rightarrow> frame \<Rightarrow> pyexc + transaction" where
  "Transaction_call tx response =
     (if fut_done (fut tx) then Inr tx
      else case msg_error response of
        Some e \<Rightarrow> Inr (tx\<lparr>fut := Failed (ProtocolException_init e)\<rparr>)
      | None \<Rightarrow>
          (case msg_result response of
             None \<Rightarrow> Inl (KeyError ''result'')
           | Some r \<Rightarrow>
               (case cdp_obj tx r of
                  GenKeyError k \<Rightarrow> Inl (KeyNotFound k r)
                | StopIteration v \<Rightarrow> Inr (tx\<lparr>fut := Result v\<rparr>)
                | GenRaise x \<Rightarrow> Inl (OtherException x)
                | GenYield \<Rightarrow> Inr tx)))"

text \<open>\<^verbatim>\<open>Transaction.message\<close>: the request as it is handed to \<^verbatim>\<open>json.dumps\<close>.\<close>

record request =
  req_method :: string
  req_params :: raw
  req_id :: "int option"

definition tx_message :: "transaction \<Rightarrow> request" where
  "tx_message tx = \<lparr>req_method = tx_method tx, req_params = tx_params tx, req_id = tx_id tx\<rparr>"

section \<open>Registration targets and callbacks\<close>

text \<open>
  The Python objects that reach the registry. \<open>Class m n\<close> is a class named \<open>n\<close> of module
  \<open>m\<close> whose metaclass is \<^verbatim>\<open>type\<close>; \<open>MetaClass m n\<close> is a class with another metaclass (an
  enum), for which \<^verbatim>\<open>isinstance(o, type)\<close> holds and \<^verbatim>\<open>type(o) == type\<close> does not;
  \<open>Module m members\<close> is a module with the list \<^verbatim>\<open>inspect.getmembers_static\<close> returns for
  it; \<open>Builtin\<close> is a builtin function and \<open>Object\<close> any other hashable object.
\<close>

datatype pyobj =
    Class string string
  | MetaClass string string
  | Module string "(string \<times> pyobj) list"
  | Builtin string
  | Object string

fun is_module :: "pyobj \<Rightarrow> bool" where
  "is_module (Module m ms) = True"
| "is_module _ = False"

fun type_is_type :: "pyobj \<Rightarrow> bool" where
  "type_is_type (Class m n) = True"
| "type_is_type _ = False"

fun isinstance_type :: "pyobj \<Rightarrow> bool" where
  "isinstance_type (Class m n) = True"
| "isinstance_type (MetaClass m n) = True"
| "isinstance_type _ = False"

fun isbuiltin :: "pyobj \<Rightarrow> bool" where
  "isbuiltin (Builtin n) = True"
| "isbuiltin _ = False"

text \<open>\<^verbatim>\<open>event_type.__module__\<close>, read only from objects that are classes.\<close>

fun py_module :: "pyobj \<Rightarrow> string" where
  "py_module (Class m n) = m"
| "py_module (MetaClass m n) = m"
| "py_module (Module m ms) = m"
| "py_module (Builtin n) = ''builtins''"
| "py_module (Object n) = n"

text \<open>\<^verbatim>\<open>str.isupper\<close> on ASCII names: some cased character, and no lower-case one.
  \<^verbatim>\<open>name[0].isupper()\<close> is read on member names, which are never empty.\<close>

definition is_upper_char :: "char \<Rightarrow> bool" where
  "is_upper_char c = (65 \<le> (of_char c :: nat) \<and> (of_char c :: nat) \<le> 90)"

definition is_lower_char :: "char \<Rightarrow> bool" where
  "is_lower_char c = (97 \<le> (of_char c :: nat) \<and> (of_char c :: nat) \<le> 122)"

definition str_isupper :: "string \<Rightarrow> bool" where
  "str_isupper s = (list_ex is_upper_char s \<and> list_all (\<lambda>c. \<not> is_lower_char c) s)"

definition first_isupper :: "string \<Rightarrow> bool" where
  "first_isupper s = (case s of [] \<Rightarrow> False | c # cs \<Rightarrow> is_upper_char c)"

text \<open>The member filter shared by \<^verbatim>\<open>add_handler\<close> and \<^verbatim>\<open>remove_handler\<close>: the list
  \<^verbatim>\<open>event_types\<close> collected from a module.\<close>

definition keeps_member :: "string \<times> pyobj \<Rightarrow> bool" where
  "keeps_member p =
     (\<not> str_isupper (fst p) \<and> first_isupper (fst p) \<and> type_is_type (snd p) \<and> \<not> isbuiltin (snd p))"

definition event_types :: "(string \<times> pyobj) list \<Rightarrow> pyobj list" where
  "event_types members = map snd (filter keeps_member members)"

text \<open>A callback is identified by its name; what kind of callable it is decides how the
  listener invokes it.\<close>

datatype callback = Func string | CoroFunc string | Coro string

fun is_async :: "callback \<Rightarrow> bool" where
  "is_async (Func n) = False"
| "is_async _ = True"

text \<open>The argument \<^verbatim>\<open>event_type_or_domain\<close>: one object, or a Python list of them.\<close>

datatype target = One pyobj | Many "pyobj list"

fun as_list :: "target \<Rightarrow> pyobj list" where
  "as_list (One x) = [x]"
| "as_list (Many xs) = xs"

section \<open>Connection state\<close>

type_synonym handlers = "(pyobj \<times> callback list) list"

type_synonym domain = string

datatype log_entry =
    UnknownId int
  | GotAnswer "int option"
  | Registered "domain option"
  | EnableFailed
  | EventParseFailed pyexc
  | CallbackFailed callback pyexc
  | TaskFailed pyexc
  | ReceiveFailed pyexc
  | OpenFailed
  | ClosedSocket

text \<open>
  \<open>websocket\<close> is \<open>None\<close> before the first connect and otherwise holds the close code of
  the socket. \<open>count\<close> is the next value of \<^verbatim>\<open>itertools.count(0)\<close>. \<open>connection_lock\<close>
  says whether \<^verbatim>\<open>_connection_lock\<close> is held; the two other locks are held only over
  blocks that do not await, which are single steps here. Four fields record
  effects: \<open>wire\<close> the requests handed to \<^verbatim>\<open>websocket.send\<close>, \<open>calls\<close> the callback
  invocations with their number of arguments, \<open>tasks\<close> the callbacks scheduled as tasks
  and \<open>finished\<close> the Transactions the listener popped and completed.
\<close>

record connection =
  mapper :: "int \<rightharpoonup> transaction"
  handlers :: handlers
  enabled_domains :: "domain option list"
  websocket :: "int option option"
  listener_task :: bool
  connection_lock :: bool
  count :: int
  wire :: "request list"
  calls :: "(callback \<times> nat) list"
  tasks :: "callback list"
  finished :: "transaction list"
  log :: "log_entry list"

definition Connection_init :: connection where
  "Connection_init =
     \<lparr>mapper = Map.empty, handlers = [], enabled_domains = [], websocket = None,
      listener_task = False, connection_lock = False, count = 0, wire = [], calls = [], tasks = [], finished = [],
      log = []\<rparr>"

definition closed :: "connection \<Rightarrow> bool" where
  "closed c = (case websocket c of None \<Rightarrow> True
               | Some cc \<Rightarrow> (case cc of None \<Rightarrow> False | Some n \<Rightarrow> n \<noteq> 0))"

section \<open>add_handler and remove_handler\<close>

text \<open>\<^verbatim>\<open>self.handlers[k].append(h)\<close> on a \<^verbatim>\<open>defaultdict(list)\<close>: a missing key is
  created at the end of the dict.\<close>

definition dd_append :: "pyobj \<Rightarrow> callback \<Rightarrow> handlers \<Rightarrow> handlers" where
  "dd_append k h hs = AList.map_default k [h] (\<lambda>cbs. cbs @ [h]) hs"

text \<open>The loop over the targets. The module branch ends in \<^verbatim>\<open>return\<close>, so the targets
  after a module are not looked at.\<close>

fun add_loop :: "pyobj list \<Rightarrow> callback \<Rightarrow> handlers \<Rightarrow> handlers" where
  "add_loop [] h hs = hs"
| "add_loop (Module m ms # rest) h hs = fold (\<lambda>obj. dd_append obj h) (event_types ms) hs"
| "add_loop (evt_dom # rest) h hs = add_loop rest h (dd_append evt_dom h hs)"

definition add_handler :: "target \<Rightarrow> callback \<Rightarrow> connection \<Rightarrow> connection" where
  "add_handler event_type_or_domain handler c =
     c\<lparr>handlers := add_loop (as_list event_type_or_domain) handler (handlers c)\<rparr>"

text \<open>\<^verbatim>\<open>if handler in callbacks: self.handlers[event].remove(handler)\<close>, for every entry.
  \<^verbatim>\<open>list.remove\<close> deletes the first occurrence.\<close>

definition remove_callback :: "callback \<Rightarrow> handlers \<Rightarrow> handlers" where
  "remove_callback h hs =
     map (\<lambda>(event, callbacks). (event, if h \<in> set callbacks then remove1 h callbacks else callbacks)) hs"

definition del_if_present :: "pyobj \<Rightarrow> handlers \<Rightarrow> handlers" where
  "del_if_present k hs = (if map_of hs k \<noteq> None then AList.delete k hs else hs)"

fun remove_loop :: "pyobj list \<Rightarrow> handlers \<Rightarrow> handlers" where
  "remove_loop [] hs = hs"
| "remove_loop (Module m ms # rest) hs = fold del_if_present (event_types ms) hs"
| "remove_loop (evt_dom # rest) hs = remove_loop rest (del_if_present evt_dom hs)"

text \<open>A callable is truthy, so \<^verbatim>\<open>if handler\<close> tests that a handler was given.\<close>

definition remove_handler :: "target \<Rightarrow> callback option \<Rightarrow> connection \<Rightarrow> connection" where
  "remove_handler event_type_or_domain handler c =
     (let hs = (case handler of None \<Rightarrow> handlers c | Some h \<Rightarrow> remove_callback h (handlers c))
      in c\<lparr>handlers := remove_loop (as_list event_type_or_domain) hs\<rparr>)"

section \<open>The collaborators\<close>

text \<open>
  What a coroutine that awaits can observe: it returns a value, an exception is raised
  in it, or it stays suspended for ever.
\<close>

datatype 'a res = Ret 'a | Exc pyexc | Waits

text \<open>
  The fate of the request with a given id, as the sender sees it: the listener popped
  the Transaction and completed it with a value or a ProtocolException, or
  \<^verbatim>\<open>websocket.send\<close> raised (the Transaction stays in the table), or no reply ever
  completes it.
\<close>

datatype fate = Replied jval | Rejected ProtocolException | SendFailed | NoReply

datatype event = Event pyobj raw

fun type_of_event :: "event \<Rightarrow> pyobj" where
  "type_of_event (Event t p) = t"

datatype outcome = Returns | Raises pyexc

text \<open>
  The parts of the program that are not in \<^verbatim>\<open>connection.py\<close>, and the peer, are parameters:
  \<open>cdp_get_module\<close> is \<^verbatim>\<open>util.cdp_get_module\<close> on a class's \<^verbatim>\<open>__module__\<close>; \<open>enable d\<close> is
  \<^verbatim>\<open>d.enable()\<close>, \<open>None\<close> when the module has no such attribute; \<open>peer\<close> gives the fate of
  each request; \<open>connects\<close> says whether opening the socket succeeds;
  \<open>parse_json_event\<close> is \<^verbatim>\<open>cdp.util.parse_json_event\<close>; \<open>invoke cb ev n\<close> is what calling the
  callback with \<open>n\<close> arguments does (for a coroutine function, \<open>Returns\<close> means that the
  coroutine object was made).
\<close>

record env =
  cdp_get_module :: "string \<Rightarrow> domain"
  enable :: "domain \<Rightarrow> command option"
  peer :: "int \<Rightarrow> fate"
  connects :: bool
  parse_json_event :: "frame \<Rightarrow> pyexc + event"
  invoke :: "callback \<Rightarrow> event \<Rightarrow> nat \<Rightarrow> outcome"

definition cdp_target :: domain where
  "cdp_target = ''nodriver.cdp.target''"

definition cdp_storage :: domain where
  "cdp_storage = ''nodriver.cdp.storage''"

section \<open>Sending\<close>

text \<open>
  The block of \<^verbatim>\<open>send\<close> under \<^verbatim>\<open>self._lock\<close>: the id is drawn from the counter, written
  to the Transaction, and the Transaction is stored in the pending table under it.
\<close>

definition assign_id :: "connection \<Rightarrow> transaction \<Rightarrow> transaction \<times> connection" where
  "assign_id c tx0 =
     (let the_id = count c;
          tx = tx0\<lparr>tx_id := Some the_id\<rparr>
      in (tx, c\<lparr>count := the_id + 1, mapper := (mapper c)(the_id \<mapsto> tx)\<rparr>))"

text \<open>
  The part of \<^verbatim>\<open>send\<close> after the connection check and the reconciliation pass: build the
  Transaction, assign its id, hand the request to the socket, await the Transaction.
\<close>

definition transmit :: "env \<Rightarrow> connection \<Rightarrow> command \<Rightarrow> jval res \<times> connection" where
  "transmit e c cdp =
     (let the_id = count c;
          (tx, c0) = assign_id c (Transaction_init cdp);
          c1 = c0\<lparr>wire := wire c0 @ [tx_message tx]\<rparr>
      in case peer e the_id of
           SendFailed \<Rightarrow> (Exc ConnectionClosedError, c1)
         | NoReply \<Rightarrow> (Waits, c1)
         | Replied v \<Rightarrow>
             (Ret v, c1\<lparr>mapper := (mapper c1)(the_id := None),
                        finished := finished c1 @ [tx\<lparr>fut := Result v\<rparr>]\<rparr>)
         | Rejected x \<Rightarrow>
             (Exc (ProtocolError x),
              c1\<lparr>mapper := (mapper c1)(the_id := None),
                  finished := finished c1 @ [tx\<lparr>fut := Failed x\<rparr>]\<rparr>))"

section \<open>The reconciliation pass\<close>

text \<open>The first loop of \<^verbatim>\<open>_register_handlers\<close>: entries with an empty list are popped.\<close>

fun prune :: "pyobj list \<Rightarrow> handlers \<Rightarrow> handlers" where
  "prune [] hs = hs"
| "prune (event_type # rest) hs =
     prune rest
       (if length (case map_of hs event_type of None \<Rightarrow> [] | Some cbs \<Rightarrow> cbs) = 0
        then AList.delete event_type hs else hs)"

definition rollback :: "domain option \<Rightarrow> connection \<Rightarrow> connection" where
  "rollback domain_mod c =
     c\<lparr>enabled_domains := remove1 domain_mod (enabled_domains c), log := log c @ [EnableFailed]\<rparr>"

text \<open>\<^verbatim>\<open>domain_mod\<close> as the second loop computes it: \<^verbatim>\<open>None\<close> for a key that is not a class.\<close>

definition domain_of :: "env \<Rightarrow> pyobj \<Rightarrow> domain option" where
  "domain_of e event_type =
     (if isinstance_type event_type then Some (cdp_get_module e (py_module event_type)) else None)"

text \<open>
  The second loop, over the keys of the snapshot; \<open>tmp\<close> is the local copy
  \<^verbatim>\<open>enabled_domains\<close>. \<open>nested\<close> is the call \<^verbatim>\<open>self.send(..., _is_update=True)\<close>, which
  is defined below, after the connection check it starts with. For
  \<^verbatim>\<open>domain_mod = None\<close> the call of \<^verbatim>\<open>enable\<close> raises \<^verbatim>\<open>AttributeError\<close> inside the
  \<^verbatim>\<open>try\<close>. The second membership test, under the lock, repeats the first.
\<close>

fun reconcile ::
  "(connection \<Rightarrow> command \<Rightarrow> jval res \<times> connection) \<Rightarrow> env \<Rightarrow> pyobj list \<Rightarrow>
   domain option list \<Rightarrow> connection \<Rightarrow> domain option list res \<times> connection"
where
  "reconcile nested e [] tmp c = (Ret tmp, c)"
| "reconcile nested e (event_type # rest) tmp c =
     (if map_of (handlers c) event_type = None then reconcile nested e rest tmp c
      else
        let domain_mod = domain_of e event_type in
          if domain_mod \<in> set (enabled_domains c) then
            reconcile nested e rest
              (if domain_mod \<in> set tmp then remove1 domain_mod tmp else tmp) c
          else if domain_mod \<in> {Some cdp_target, Some cdp_storage} then
            reconcile nested e rest tmp c
          else
            let c1 = c\<lparr>enabled_domains := enabled_domains c @ [domain_mod],
                       log := log c @ [Registered domain_mod]\<rparr>
            in case (case domain_mod of None \<Rightarrow> None | Some d \<Rightarrow> enable e d) of
                 None \<Rightarrow> reconcile nested e rest tmp (rollback domain_mod c1)
               | Some cdp \<Rightarrow>
                   (case nested c1 cdp of
                      (Ret v, c2) \<Rightarrow> reconcile nested e rest tmp c2
                    | (Exc x, c2) \<Rightarrow> reconcile nested e rest tmp (rollback domain_mod c2)
                    | (Waits, c2) \<Rightarrow> (Waits, c2)))"

text \<open>The last loop: what is left in the copy is removed from the list, a missing
  element being skipped.\<close>

definition drop_unused :: "domain option list \<Rightarrow> domain option list \<Rightarrow> domain option list" where
  "drop_unused tmp enabled = fold remove1 tmp enabled"

text \<open>\<^verbatim>\<open>_register_handlers\<close>, for a given nested send.\<close>

definition register_handlers_with ::
  "(connection \<Rightarrow> command \<Rightarrow> jval res \<times> connection) \<Rightarrow> env \<Rightarrow> connection \<Rightarrow>
   unit res \<times> connection" where
  "register_handlers_with nested e c =
     (let enabled_copy = enabled_domains c;
          handlers_snapshot = handlers c;
          c0 = c\<lparr>handlers := prune (map fst handlers_snapshot) (handlers c)\<rparr>
      in case reconcile nested e (map fst handlers_snapshot) enabled_copy c0 of
           (Ret tmp, c1) \<Rightarrow>
             (Ret (), c1\<lparr>enabled_domains := drop_unused tmp (enabled_domains c1)\<rparr>)
         | (Exc x, c1) \<Rightarrow> (Exc x, c1)
         | (Waits, c1) \<Rightarrow> (Waits, c1))"

section \<open>Connecting, disconnecting and the public send\<close>

text \<open>
  \<^verbatim>\<open>async with self._connection_lock\<close> around a body. The lock is an \<^verbatim>\<open>asyncio.Lock\<close>,
  which is not re-entrant: when it is held, the coroutine that wants it stays suspended.
  The lock is released when the body returns or raises, and stays held when the body
  never finishes.
\<close>

definition with_connection_lock ::
  "(connection \<Rightarrow> 'a res \<times> connection) \<Rightarrow> connection \<Rightarrow> 'a res \<times> connection" where
  "with_connection_lock body c =
     (if connection_lock c then (Waits, c)
      else case body (c\<lparr>connection_lock := True\<rparr>) of
             (Waits, c1) \<Rightarrow> (Waits, c1)
           | (Ret v, c1) \<Rightarrow> (Ret v, c1\<lparr>connection_lock := False\<rparr>)
           | (Exc x, c1) \<Rightarrow> (Exc x, c1\<lparr>connection_lock := False\<rparr>))"

text \<open>A send that finds the lock held: it draws no id and never returns.\<close>

definition blocked :: "connection \<Rightarrow> command \<Rightarrow> jval res \<times> connection" where
  "blocked c cdp = (Waits, c)"

text \<open>
  \<^verbatim>\<open>_connect_unlocked\<close> is called by \<^verbatim>\<open>connect\<close> and \<^verbatim>\<open>send\<close> only, inside the lock. The
  pass it runs after opening the socket therefore runs with the lock held, and each
  nested send of that pass is \<open>blocked\<close>.
\<close>

definition connect_unlocked :: "env \<Rightarrow> connection \<Rightarrow> unit res \<times> connection" where
  "connect_unlocked e c =
     (if closed c then
        (if connects e
         then register_handlers_with blocked e (c\<lparr>websocket := Some None, listener_task := True\<rparr>)
         else (Exc (OtherException ''connect''), c\<lparr>log := log c @ [OpenFailed]\<rparr>))
      else (Ret (), c))"

definition connect :: "env \<Rightarrow> connection \<Rightarrow> unit res \<times> connection" where
  "connect e c = with_connection_lock (connect_unlocked e) c"

text \<open>\<^verbatim>\<open>send(cdp_obj, _is_update=True)\<close>: the connection check, then the transmission.\<close>

definition send_update :: "env \<Rightarrow> connection \<Rightarrow> command \<Rightarrow> jval res \<times> connection" where
  "send_update e c cdp =
     (case connect e c of
        (Exc x, c1) \<Rightarrow> (Exc x, c1)
      | (Waits, c1) \<Rightarrow> (Waits, c1)
      | (Ret u, c1) \<Rightarrow> transmit e c1 cdp)"

text \<open>\<^verbatim>\<open>_register_handlers\<close> as \<^verbatim>\<open>send\<close> calls it, after the lock was released.\<close>

definition register_handlers :: "env \<Rightarrow> connection \<Rightarrow> unit res \<times> connection" where
  "register_handlers e c = register_handlers_with (send_update e) e c"

definition send :: "env \<Rightarrow> connection \<Rightarrow> command \<Rightarrow> bool \<Rightarrow> jval res \<times> connection" where
  "send e c cdp is_update =
     (if is_update then send_update e c cdp
      else case connect e c of
        (Exc x, c1) \<Rightarrow> (Exc x, c1)
      | (Waits, c1) \<Rightarrow> (Waits, c1)
      | (Ret u, c1) \<Rightarrow>
          (case register_handlers e c1 of
             (Exc x, c2) \<Rightarrow> (Exc x, c2)
           | (Waits, c2) \<Rightarrow> (Waits, c2)
           | (Ret u', c2) \<Rightarrow> transmit e c2 cdp))"

definition send_oneshot :: "env \<Rightarrow> connection \<Rightarrow> command \<Rightarrow> jval res \<times> connection" where
  "send_oneshot e c cdp = send e c cdp True"

text \<open>The body of \<^verbatim>\<open>disconnect\<close>, and \<^verbatim>\<open>disconnect\<close> itself.\<close>

definition disconnect_body :: "connection \<Rightarrow> connection" where
  "disconnect_body c =
     (case websocket c of
        None \<Rightarrow> c
      | Some cc \<Rightarrow>
          c\<lparr>enabled_domains := [],
            websocket := Some (case cc of None \<Rightarrow> Some 1000 | Some n \<Rightarrow> Some n),
            log := log c @ [ClosedSocket]\<rparr>)"

definition disconnect :: "connection \<Rightarrow> unit res \<times> connection" where
  "disconnect c = with_connection_lock (\<lambda>c1. (Ret (), disconnect_body c1)) c"

section \<open>The listener\<close>

text \<open>\<^verbatim>\<open>except Exception\<close> catches every exception of the model but the system-exiting
  ones.\<close>

fun is_Exception :: "pyexc \<Rightarrow> bool" where
  "is_Exception (SystemExiting n) = False"
| "is_Exception _ = True"

text \<open>What \<^verbatim>\<open>websocket.recv()\<close> gives the loop: a text that \<^verbatim>\<open>json.loads\<close> decodes to
  a frame, a text it rejects, or one of the exceptions the loop distinguishes.\<close>

datatype recv =
    Text frame
  | Garbage
  | RecvProtocolException
  | RecvClosedOK
  | RecvClosed
  | RecvRaises pyexc

datatype flow = Continue | Break | Raise pyexc | Suspended

text \<open>
  One callback of the \<^verbatim>\<open>for callback in callbacks\<close> loop, without the enclosing
  \<^verbatim>\<open>except Exception\<close>: the call with the event and the connection first, the call with
  the event alone when that raises \<^verbatim>\<open>TypeError\<close>. A coroutine function is called the same
  way and its coroutine is scheduled as a task.
\<close>

definition call_callback :: "env \<Rightarrow> event \<Rightarrow> callback \<Rightarrow> connection \<Rightarrow> outcome \<times> connection" where
  "call_callback e ev cb c =
     (let c2 = c\<lparr>calls := calls c @ [(cb, 2)]\<rparr> in
      case invoke e cb ev 2 of
        Returns \<Rightarrow> (Returns, if is_async cb then c2\<lparr>tasks := tasks c2 @ [cb]\<rparr> else c2)
      | Raises TypeError \<Rightarrow>
          (let c1 = c2\<lparr>calls := calls c2 @ [(cb, 1)]\<rparr> in
           case invoke e cb ev 1 of
             Returns \<Rightarrow> (Returns, if is_async cb then c1\<lparr>tasks := tasks c1 @ [cb]\<rparr> else c1)
           | Raises x \<Rightarrow> (Raises x, c1))
      | Raises x \<Rightarrow> (Raises x, c2))"

fun run_callbacks :: "env \<Rightarrow> event \<Rightarrow> callback list \<Rightarrow> connection \<Rightarrow> flow \<times> connection" where
  "run_callbacks e ev [] c = (Continue, c)"
| "run_callbacks e ev (cb # cbs) c =
     (case call_callback e ev cb c of
        (Returns, c1) \<Rightarrow> run_callbacks e ev cbs c1
      | (Raises x, c1) \<Rightarrow>
          (if is_Exception x
           then run_callbacks e ev cbs (c1\<lparr>log := log c1 @ [CallbackFailed cb x]\<rparr>)
           else (Raise x, c1)))"

text \<open>\<^verbatim>\<open>_handle_handler_task_result\<close>, the completion hook of a scheduled task.\<close>

definition handle_handler_task_result :: "outcome \<Rightarrow> connection \<Rightarrow> flow \<times> connection" where
  "handle_handler_task_result r c =
     (case r of
        Returns \<Rightarrow> (Continue, c)
      | Raises x \<Rightarrow>
          (if is_Exception x then (Continue, c\<lparr>log := log c @ [TaskFailed x]\<rparr>) else (Raise x, c)))"

text \<open>The branch for a frame with an \<^verbatim>\<open>id\<close>.\<close>

definition on_reply :: "connection \<Rightarrow> int \<Rightarrow> frame \<Rightarrow> flow \<times> connection" where
  "on_reply c i msg =
     (case mapper c i of
        None \<Rightarrow> (Continue, c\<lparr>log := log c @ [UnknownId i]\<rparr>)
      | Some tx \<Rightarrow>
          (let c1 = c\<lparr>mapper := (mapper c)(i := None)\<rparr> in
           case Transaction_call tx msg of
             Inl x \<Rightarrow> (Raise x, c1)
           | Inr tx' \<Rightarrow>
               (Continue, c1\<lparr>finished := finished c1 @ [tx'], log := log c1 @ [GotAnswer (tx_id tx')]\<rparr>)))"

text \<open>The branch for a frame without an \<^verbatim>\<open>id\<close>.\<close>

definition on_event :: "env \<Rightarrow> connection \<Rightarrow> frame \<Rightarrow> flow \<times> connection" where
  "on_event e c msg =
     (case parse_json_event e msg of
        Inl x \<Rightarrow>
          (if is_Exception x then (Continue, c\<lparr>log := log c @ [EventParseFailed x]\<rparr>)
           else (Raise x, c))
      | Inr ev \<Rightarrow>
          (let callbacks = (case map_of (handlers c) (type_of_event ev) of
                              None \<Rightarrow> [] | Some cbs \<Rightarrow> cbs)
           in if callbacks = [] then (Continue, c) else run_callbacks e ev callbacks c))"

definition listener_step :: "env \<Rightarrow> connection \<Rightarrow> recv \<Rightarrow> flow \<times> connection" where
  "listener_step e c r =
     (case r of
        RecvProtocolException \<Rightarrow> (Break, c)
      | RecvClosedOK \<Rightarrow>
          (case disconnect c of (Waits, c1) \<Rightarrow> (Suspended, c1) | (r, c1) \<Rightarrow> (Break, c1))
      | RecvClosed \<Rightarrow>
          (case disconnect c of (Waits, c1) \<Rightarrow> (Suspended, c1) | (r, c1) \<Rightarrow> (Break, c1))
      | RecvRaises x \<Rightarrow>
          (if is_Exception x then (Raise x, c\<lparr>log := log c @ [ReceiveFailed x]\<rparr>)
           else (Raise x, c))
      | Garbage \<Rightarrow> (Raise (OtherException ''JSONDecodeError''), c)
      | Text msg \<Rightarrow>
          (case msg_id msg of
             Some i \<Rightarrow> on_reply c i msg
           | None \<Rightarrow> on_event e c msg))"

text \<open>The loop over what the socket delivers. \<open>Continue\<close> at the end of the input means
  that the loop is suspended in \<^verbatim>\<open>recv()\<close>, still alive; \<open>Suspended\<close> that it waits for
  the connection lock for ever.\<close>

fun listener :: "env \<Rightarrow> connection \<Rightarrow> recv list \<Rightarrow> flow \<times> connection" where
  "listener e c [] = (Continue, c)"
| "listener e c (r # rs) =
     (case listener_step e c r of
        (Continue, c1) \<Rightarrow> listener e c1 rs
      | (Break, c1) \<Rightarrow> (Break, c1)
      | (Raise x, c1) \<Rightarrow> (Raise x, c1)
      | (Suspended, c1) \<Rightarrow> (Suspended, c1))"

section \<open>Operations on a connection, in sequence\<close>

text \<open>
  The calls a connection receives during its lifetime, each with the collaborators as
  they behave at that moment. \<open>apply_op\<close> gives the state a call leaves behind, whether
  it returned, raised or stays suspended.
\<close>

datatype op =
    Connect
  | Disconnect
  | Send command
  | SendOneshot command
  | AddHandler target callback
  | RemoveHandler target "callback option"
  | Receive recv
  | TaskDone outcome

fun apply_op :: "env \<Rightarrow> op \<Rightarrow> connection \<Rightarrow> connection" where
  "apply_op e Connect c = snd (connect e c)"
| "apply_op e Disconnect c = snd (disconnect c)"
| "apply_op e (Send cdp) c = snd (send e c cdp False)"
| "apply_op e (SendOneshot cdp) c = snd (send_oneshot e c cdp)"
| "apply_op e (AddHandler t h) c = add_handler t h c"
| "apply_op e (RemoveHandler t h) c = remove_handler t h c"
| "apply_op e (Receive r) c = snd (listener_step e c r)"
| "apply_op e (TaskDone r) c = snd (handle_handler_task_result r c)"

definition run :: "(env \<times> op) list \<Rightarrow> connection \<Rightarrow> connection" where
  "run steps c = fold (\<lambda>(e, x). apply_op e x) steps c"

section \<open>Notions of the specification\<close>

text \<open>The correlation ids of the requests handed to the socket, in order.\<close>

definition assigned :: "connection \<Rightarrow> int list" where
  "assigned c = List.map_filter req_id (wire c)"

text \<open>An event type has callbacks when the registry, read as the dict it stands for,
  maps it to a list that is not empty. The implied namespaces are those of the event
  types with callbacks; a key that is not a class has none, which is \<open>None\<close>.\<close>

definition has_callbacks :: "handlers \<Rightarrow> pyobj \<Rightarrow> bool" where
  "has_callbacks hs k = (case map_of hs k of None \<Rightarrow> False | Some cbs \<Rightarrow> cbs \<noteq> [])"

definition implied :: "env \<Rightarrow> handlers \<Rightarrow> domain option set" where
  "implied e hs = set (map (domain_of e) (filter (has_callbacks hs) (map fst hs)))"


text \<open>The event types a target list resolves to, a module standing for the classes it
  declares.\<close>

fun resolve :: "pyobj \<Rightarrow> pyobj list" where
  "resolve (Module m ms) = event_types ms"
| "resolve t = [t]"

definition resolved :: "target \<Rightarrow> pyobj list" where
  "resolved t = concat (map resolve (as_list t))"








text \<open>The ids handed out so far increase strictly and lie below the counter, and the
  pending table holds nothing from the counter onwards.\<close>

definition ids_inv :: "connection \<Rightarrow> bool" where
  "ids_inv c =
     (sorted_wrt (<) (assigned c) \<and> list_all (\<lambda>i. i < count c) (assigned c) \<and>
      (\<forall>k. mapper c (count c + int k) = None))"

section \<open>Example values\<close>

text \<open>A codec that expects the key \<^verbatim>\<open>value\<close>, a command built on it, and collaborators
  under which every request is answered and every callback returns.\<close>

definition value_codec :: "raw \<Rightarrow> gen_step" where
  "value_codec r = (case map_of r ''value'' of None \<Rightarrow> GenKeyError ''value'' | Some v \<Rightarrow> StopIteration v)"

definition evaluate :: command where
  "evaluate = \<lparr>cmd_method = ''Runtime.evaluate'', cmd_params = None, cmd_send = value_codec\<rparr>"

definition enable_cmd :: "domain \<Rightarrow> command" where
  "enable_cmd d = \<lparr>cmd_method = d @ ''.enable'', cmd_params = None, cmd_send = (\<lambda>r. StopIteration JNone)\<rparr>"

definition reply :: "int \<Rightarrow> raw \<Rightarrow> frame" where
  "reply i r = \<lparr>msg_id = Some i, msg_error = None, msg_result = Some r, msg_rest = []\<rparr>"

definition error_reply :: "int \<Rightarrow> payload \<Rightarrow> frame" where
  "error_reply i p = \<lparr>msg_id = Some i, msg_error = Some p, msg_result = None, msg_rest = []\<rparr>"

definition both_reply :: "int \<Rightarrow> payload \<Rightarrow> raw \<Rightarrow> frame" where
  "both_reply i p r = \<lparr>msg_id = Some i, msg_error = Some p, msg_result = Some r, msg_rest = []\<rparr>"

definition notification :: "string \<Rightarrow> frame" where
  "notification m = \<lparr>msg_id = None, msg_error = None, msg_result = None, msg_rest = [(''method'', JStr m)]\<rparr>"

definition RequestWillBeSent :: pyobj where
  "RequestWillBeSent = Class ''nodriver.cdp.network'' ''RequestWillBeSent''"

definition FrameNavigated :: pyobj where
  "FrameNavigated = Class ''nodriver.cdp.page'' ''FrameNavigated''"

definition network_members :: "(string \<times> pyobj) list" where
  "network_members =
     [(''RequestWillBeSent'', RequestWillBeSent), (''T_JSON_DICT'', Class ''builtins'' ''dict''),
      (''enable'', Object ''function enable''), (''typing'', Module ''typing'' [])]"

definition network :: pyobj where
  "network = Module ''nodriver.cdp.network'' network_members"

definition on_request :: callback where
  "on_request = Func ''on_request''"

definition on_frame :: callback where
  "on_frame = Func ''on_frame''"

definition quiet_env :: env where
  "quiet_env =
     \<lparr>cdp_get_module = (\<lambda>m. m), enable = (\<lambda>d. Some (enable_cmd d)), peer = (\<lambda>i. Replied JNone),
      connects = True,
      parse_json_event = (\<lambda>f. Inl (KeyError ''method'')),
      invoke = (\<lambda>cb ev n. Returns)\<rparr>"

text \<open>Collaborators under which every frame decodes to a \<^verbatim>\<open>FrameNavigated\<close> event and
  the callback \<open>on_frame\<close> raises, an \<^verbatim>\<open>Exception\<close> in the first and \<^verbatim>\<open>SystemExit\<close> in the
  second; a connection with two callbacks for that event.\<close>

definition frame_event :: event where
  "frame_event = Event FrameNavigated []"

definition noisy_env :: env where
  "noisy_env = quiet_env
     \<lparr>parse_json_event := (\<lambda>f. Inr frame_event),
      invoke := (\<lambda>cb ev n. if cb = on_frame then Raises (OtherException ''boom'') else Returns)\<rparr>"


definition two_callbacks :: connection where
  "two_callbacks = Connection_init\<lparr>handlers := [(FrameNavigated, [on_frame, on_request])]\<rparr>"

text \<open>A send, the registration of a callback, and a second send, which enables the
  namespace of the callback before it transmits its own command.\<close>

definition three_steps :: "(env \<times> op) list" where
  "three_steps =
     [(quiet_env, Send evaluate), (quiet_env, AddHandler (One FrameNavigated) on_frame),
      (quiet_env, Send evaluate)]"






section \<open>Rendering a ProtocolException\<close>

lemma str_nat_32000: "str_nat 32000 = ''32000''"
proof -
  have a: "str_nat 3 = ''3''"
    by (simp add: str_nat.simps [of 3] digit_char_def)
  have b: "str_nat 32 = ''32''"
    by (simp add: str_nat.simps [of 32] digit_char_def a)
  have c: "str_nat 320 = ''320''"
    by (simp add: str_nat.simps [of 320] digit_char_def b)
  have d: "str_nat 3200 = ''3200''"
    by (simp add: str_nat.simps [of 3200] digit_char_def c)
  show ?thesis
    by (simp add: str_nat.simps [of 32000] digit_char_def d)
qed

lemma str_int_minus_32000: "str_int (- 32000) = ''-32000''"
  by (simp add: str_int_def str_nat_32000)

lemma ProtocolException_str_truthy:
  "truthy (code x) \<Longrightarrow>
   ProtocolException_str x = py_str (message x) @ '' [code: '' @ py_str (code x) @ '']''"
  by (simp add: ProtocolException_str_def)

lemma ProtocolException_str_no_code:
  "code x = JNone \<Longrightarrow> ProtocolException_str x = py_str (message x)"
  by (simp add: ProtocolException_str_def)

lemma scenario_B_rendering:
  "ProtocolException_str
     (ProtocolException_init (Dict [(''message'', JStr ''boom''), (''code'', JInt (- 32000))]))
   = ''boom [code: -32000]''"
  by (simp add: ProtocolException_str_def dict_get_none_def str_int_minus_32000)

text \<open>
  Claim C5: a ProtocolException whose payload carries a message and a code renders as
  the message followed by the code in brackets. \<^verbatim>\<open>__str__\<close> tests the code for truth, not
  for presence: the payload \<^verbatim>\<open>{"message": "boom", "code": 0}\<close> carries the code 0 and
  renders as the message alone, where the claim gives \<^verbatim>\<open>boom [code: 0]\<close>.
\<close>

theorem ProtocolException_str_code_zero:
  "code (ProtocolException_init (Dict [(''message'', JStr ''boom''), (''code'', JInt 0)])) = JInt 0 \<and>
   ProtocolException_str
     (ProtocolException_init (Dict [(''message'', JStr ''boom''), (''code'', JInt 0)]))
   = ''boom''"
  by (simp add: ProtocolException_str_def dict_get_none_def)

section \<open>Completion of a Transaction\<close>

text \<open>
  Claim C2: once a Transaction is settled (resolved, rejected or cancelled), calling its
  completion logic with any reply frame raises nothing and leaves the Transaction, and
  so its value or error, as it was.
\<close>

theorem Transaction_call_settled:
  "fut_done (fut tx) \<Longrightarrow> Transaction_call tx response = Inr tx"
  by (simp add: Transaction_call_def)

theorem Transaction_call_settled_witness:
  "fut_done (fut ((Transaction_init evaluate)\<lparr>fut := Result (JInt 42)\<rparr>)) \<and>
   Transaction_call ((Transaction_init evaluate)\<lparr>fut := Result (JInt 42)\<rparr>)
       (error_reply 1 (Dict [(''message'', JStr ''boom'')]))
     = Inr ((Transaction_init evaluate)\<lparr>fut := Result (JInt 42)\<rparr>)"
proof -
  have d: "fut_done (fut ((Transaction_init evaluate)\<lparr>fut := Result (JInt 42)\<rparr>))"
    by simp
  from d Transaction_call_settled [OF d] show ?thesis by simp
qed

text \<open>
  Claim C4, as stated, for every reply frame that carries a result: the result is fed to
  the codec and the decoded value resolves the Transaction. It fails in two ways, each
  with a result that the codec would decode to 42. A Transaction that is already done,
  here cancelled, receives \<^verbatim>\<open>{"id": 1, "result": {"value": 42}}\<close> and stays as it was. A
  pending Transaction receives a frame that carries an error beside the result,
  \<^verbatim>\<open>{"id": 1, "error": {"message": "boom"}, "result": {"value": 42}}\<close>, and is rejected
  with that error.
\<close>

theorem Transaction_call_result_counterexample:
  "msg_result (reply 1 [(''value'', JInt 42)]) = Some [(''value'', JInt 42)] \<and>
   msg_result (both_reply 1 (Dict [(''message'', JStr ''boom'')]) [(''value'', JInt 42)])
     = Some [(''value'', JInt 42)] \<and>
   cdp_obj (Transaction_init evaluate) [(''value'', JInt 42)] = StopIteration (JInt 42) \<and>
   Transaction_call ((Transaction_init evaluate)\<lparr>fut := Cancelled\<rparr>) (reply 1 [(''value'', JInt 42)])
     = Inr ((Transaction_init evaluate)\<lparr>fut := Cancelled\<rparr>) \<and>
   Transaction_call (Transaction_init evaluate)
       (both_reply 1 (Dict [(''message'', JStr ''boom'')]) [(''value'', JInt 42)])
     = Inr ((Transaction_init evaluate)\<lparr>fut := Failed \<lparr>message = JStr ''boom'', code = JNone\<rparr>\<rparr>)"
  by (simp add: Transaction_call_def reply_def both_reply_def Transaction_init_def evaluate_def
      value_codec_def dict_get_none_def)

text \<open>
  Claim C4, amended: for a Transaction that is not yet done and a reply frame that
  carries a result. When the frame carries no error, the result is fed to the codec's
  second step: if a key is missing, the call raises the key error that names the key and
  the result, and if the step ends with a value, that value resolves the Transaction.
  When the frame carries an error as well, the Transaction is rejected with the
  ProtocolException made from that error.
\<close>

theorem Transaction_call_result:
  assumes "\<not> fut_done (fut tx)" and "msg_result response = Some r"
  shows "(msg_error response = None \<and> cdp_obj tx r = GenKeyError k \<longrightarrow>
            Transaction_call tx response = Inl (KeyNotFound k r)) \<and>
         (msg_error response = None \<and> cdp_obj tx r = StopIteration v \<longrightarrow>
            Transaction_call tx response = Inr (tx\<lparr>fut := Result v\<rparr>)) \<and>
         (msg_error response = Some p \<longrightarrow>
            Transaction_call tx response = Inr (tx\<lparr>fut := Failed (ProtocolException_init p)\<rparr>))"
  using assms by (simp add: Transaction_call_def)

theorem Transaction_call_result_witness:
  "Transaction_call (Transaction_init evaluate) (reply 1 [(''value'', JInt 42)])
     = Inr ((Transaction_init evaluate)\<lparr>fut := Result (JInt 42)\<rparr>) \<and>
   Transaction_call (Transaction_init evaluate) (reply 1 [])
     = Inl (KeyNotFound ''value'' []) \<and>
   Transaction_call (Transaction_init evaluate) (both_reply 1 (Plain (JStr ''boom'')) [])
     = Inr ((Transaction_init evaluate)\<lparr>fut := Failed \<lparr>message = JStr ''boom'', code = JNone\<rparr>\<rparr>)"
proof -
  let ?tx = "Transaction_init evaluate"
  have p: "\<not> fut_done (fut ?tx)" by (simp add: Transaction_init_def)
  have a: "cdp_obj ?tx [(''value'', JInt 42)] = StopIteration (JInt 42)"
    by (simp add: Transaction_init_def evaluate_def value_codec_def)
  have b: "cdp_obj ?tx [] = GenKeyError ''value''"
    by (simp add: Transaction_init_def evaluate_def value_codec_def)
  have e1: "msg_error (reply 1 [(''value'', JInt 42)]) = None"
    and r1: "msg_result (reply 1 [(''value'', JInt 42)]) = Some [(''value'', JInt 42)]"
    by (simp_all add: reply_def)
  have e2: "msg_error (reply 1 []) = None" and r2: "msg_result (reply 1 []) = Some []"
    by (simp_all add: reply_def)
  have e3: "msg_error (both_reply 1 (Plain (JStr ''boom'')) []) = Some (Plain (JStr ''boom''))"
    and r3: "msg_result (both_reply 1 (Plain (JStr ''boom'')) []) = Some []"
    by (simp_all add: both_reply_def)
  from Transaction_call_result [OF p r1, of "''value''" "JInt 42" "Plain (JStr ''boom'')"]
    Transaction_call_result [OF p r2, of "''value''" "JInt 42" "Plain (JStr ''boom'')"]
    Transaction_call_result [OF p r3, of "''value''" "JInt 42" "Plain (JStr ''boom'')"]
    a b e1 e2 e3
  show ?thesis by simp
qed

section \<open>Replies without a pending Transaction\<close>

text \<open>
  Claim C6: a reply frame whose id is not in the pending table is logged and dropped.
  The step of the loop raises nothing and changes the log only, and the loop goes on
  with the frames that follow.
\<close>

theorem listener_unknown_id:
  assumes "msg_id msg = Some i" and "mapper c i = None"
  shows "listener_step e c (Text msg) = (Continue, c\<lparr>log := log c @ [UnknownId i]\<rparr>) \<and>
         listener e c (Text msg # rest) = listener e (c\<lparr>log := log c @ [UnknownId i]\<rparr>) rest"
  using assms by (simp add: listener_step_def on_reply_def)

theorem listener_unknown_id_witness:
  "listener quiet_env Connection_init [Text (reply 999 []), Text (reply 998 [])]
     = (Continue, Connection_init\<lparr>log := [UnknownId 999, UnknownId 998]\<rparr>)"
proof -
  have a: "msg_id (reply 999 []) = Some 999" "msg_id (reply 998 []) = Some 998"
    by (simp_all add: reply_def)
  have b: "mapper Connection_init 999 = None" by (simp add: Connection_init_def)
  have c: "mapper (Connection_init\<lparr>log := log Connection_init @ [UnknownId 999]\<rparr>) 998 = None"
    by (simp add: Connection_init_def)
  from listener_unknown_id [OF a(1) b, of quiet_env "[Text (reply 998 [])]"]
    listener_unknown_id [OF a(2) c, of quiet_env "[]"]
  show ?thesis by (simp add: Connection_init_def)
qed

section \<open>Registering and unregistering callbacks\<close>

lemma event_types_network: "event_types network_members = [RequestWillBeSent]"
  by (simp add: network_members_def event_types_def keeps_member_def str_isupper_def
      first_isupper_def is_upper_char_def is_lower_char_def RequestWillBeSent_def)

lemma RequestWillBeSent_neq_FrameNavigated: "RequestWillBeSent \<noteq> FrameNavigated"
  by (simp add: FrameNavigated_def RequestWillBeSent_def)

lemma resolve_FrameNavigated: "resolve FrameNavigated = [FrameNavigated]"
  by (simp add: FrameNavigated_def)

lemma add_handler_module_last:
  "handlers (add_handler (Many [FrameNavigated, network]) on_request Connection_init)
   = [(FrameNavigated, [on_request]), (RequestWillBeSent, [on_request])]"
  using RequestWillBeSent_neq_FrameNavigated
  by (simp add: add_handler_def network_def event_types_network Connection_init_def
      dd_append_def FrameNavigated_def)

text \<open>
  Claim C3: \<^verbatim>\<open>add_handler\<close> appends the callback to the list of every event type resolved
  from every target of the list. The module branch of the loop ends in \<^verbatim>\<open>return\<close>: for
  the list of the module \<^verbatim>\<open>network\<close> followed by the class \<^verbatim>\<open>FrameNavigated\<close>, only the
  classes of the module receive the callback, and \<^verbatim>\<open>FrameNavigated\<close> gets no entry.
\<close>

theorem add_handler_stops_after_module:
  "resolved (Many [network, FrameNavigated]) = [RequestWillBeSent, FrameNavigated] \<and>
   handlers (add_handler (Many [network, FrameNavigated]) on_request Connection_init)
     = [(RequestWillBeSent, [on_request])] \<and>
   map_of (handlers (add_handler (Many [network, FrameNavigated]) on_request Connection_init))
     FrameNavigated = None"
  using RequestWillBeSent_neq_FrameNavigated
  by (simp add: add_handler_def network_def event_types_network Connection_init_def
      dd_append_def resolved_def resolve_FrameNavigated)

lemma delete_filter: "AList.delete k hs = filter (\<lambda>p. fst p \<noteq> k) hs"
  by (induction hs) auto

lemma del_if_present_filter: "del_if_present k hs = filter (\<lambda>p. fst p \<noteq> k) hs"
proof (cases "map_of hs k")
  case None
  then have "\<forall>p \<in> set hs. fst p \<noteq> k"
    by (auto simp: map_of_eq_None_iff)
  then have "filter (\<lambda>p. fst p \<noteq> k) hs = hs"
    by (simp add: filter_True)
  with None show ?thesis by (simp add: del_if_present_def)
next
  case (Some cbs)
  then show ?thesis by (simp add: del_if_present_def delete_filter)
qed

lemma fold_del_if_present:
  "fold del_if_present ks hs = filter (\<lambda>p. fst p \<notin> set ks) hs"
proof (induction ks arbitrary: hs)
  case Nil
  then show ?case by simp
next
  case (Cons k ks)
  then show ?case by (simp add: del_if_present_filter conj_commute)
qed

lemma remove_loop_filter:
  "list_all (\<lambda>t. \<not> is_module t) (butlast ts) \<Longrightarrow>
   remove_loop ts hs = filter (\<lambda>p. fst p \<notin> set (concat (map resolve ts))) hs"
proof (induction ts arbitrary: hs)
  case Nil
  then show ?case by simp
next
  case (Cons t ts)
  show ?case
  proof (cases "is_module t")
    case True
    then obtain m ms where t: "t = Module m ms" by (cases t) auto
    from Cons.prems True have "ts = []" by (cases ts) auto
    with t show ?thesis by (simp add: fold_del_if_present)
  next
    case False
    then have step: "remove_loop (t # ts) hs = remove_loop ts (del_if_present t hs)"
      by (cases t) auto
    from False have res: "resolve t = [t]" by (cases t) auto
    from Cons.prems have "list_all (\<lambda>t. \<not> is_module t) (butlast ts)"
      by (cases ts) auto
    from Cons.IH [OF this, of "del_if_present t hs"] step res show ?thesis
      by (simp add: del_if_present_filter conj_commute)
  qed
qed

lemma remove_callback_map:
  "remove_callback h hs = map (\<lambda>p. (fst p, remove1 h (snd p))) hs"
  by (auto simp: remove_callback_def remove1_idem)

lemma remove_handler_after_module:
  "map_of (handlers (remove_handler (Many [network, FrameNavigated]) None
      (add_handler (One FrameNavigated) on_frame Connection_init))) FrameNavigated
   = Some [on_frame]"
  by (simp add: remove_handler_def add_handler_def network_def event_types_network
      Connection_init_def dd_append_def del_if_present_def FrameNavigated_def
      RequestWillBeSent_def)

text \<open>
  Claim C9, as stated: the callback is removed from every list, also where it occurs
  more than once. \<^verbatim>\<open>list.remove\<close> deletes one occurrence: a callback registered twice for
  \<^verbatim>\<open>RequestWillBeSent\<close> is still registered there after it was unregistered.
\<close>

theorem remove_handler_counterexample:
  "handlers (add_handler (One RequestWillBeSent) on_request
      (add_handler (One RequestWillBeSent) on_request Connection_init))
     = [(RequestWillBeSent, [on_request, on_request])] \<and>
   handlers (remove_handler (One FrameNavigated) (Some on_request)
      (add_handler (One RequestWillBeSent) on_request
        (add_handler (One RequestWillBeSent) on_request Connection_init)))
     = [(RequestWillBeSent, [on_request])]"
  using RequestWillBeSent_neq_FrameNavigated
  by (simp add: remove_handler_def add_handler_def Connection_init_def dd_append_def
      remove_callback_def del_if_present_def RequestWillBeSent_def FrameNavigated_def)

text \<open>
  Claim C9, amended: for a target that is one event type, one module, or a list in which
  only the last element may be a module, \<^verbatim>\<open>remove_handler\<close> with a callback removes the
  entries of every event type the target resolves to, and in each entry that stays it
  removes the first occurrence of the callback and nothing else.
\<close>

theorem remove_handler_effect:
  assumes "list_all (\<lambda>t. \<not> is_module t) (butlast (as_list tgt))"
  shows "handlers (remove_handler tgt (Some h) c) =
     map (\<lambda>p. (fst p, remove1 h (snd p)))
       (filter (\<lambda>p. fst p \<notin> set (resolved tgt)) (handlers c))"
  using assms
  by (simp add: remove_handler_def remove_loop_filter remove_callback_map resolved_def
      filter_map comp_def)

theorem remove_handler_effect_witness:
  "handlers (remove_handler (Many [FrameNavigated, network]) (Some on_request)
      (Connection_init\<lparr>handlers :=
         [(Object ''other'', [on_frame, on_request, on_request]), (FrameNavigated, [on_frame]),
          (RequestWillBeSent, [on_request])]\<rparr>))
   = [(Object ''other'', [on_frame, on_request])]"
proof -
  have a: "list_all (\<lambda>t. \<not> is_module t) (butlast (as_list (Many [FrameNavigated, network])))"
    by (simp add: FrameNavigated_def)
  have r: "resolved (Many [FrameNavigated, network]) = [FrameNavigated, RequestWillBeSent]"
    by (simp add: resolved_def network_def event_types_network FrameNavigated_def)
  have f: "on_frame \<noteq> on_request"
    by (simp add: on_frame_def on_request_def)
  from remove_handler_effect [OF a, of on_request] r f show ?thesis
    by (simp add: FrameNavigated_def RequestWillBeSent_def)
qed

section \<open>Dispatch of events to callbacks\<close>

lemma call_callback_cases:
  "call_callback e ev cb c =
     (case invoke e cb ev 2 of
        Returns \<Rightarrow> (Returns, c\<lparr>calls := calls c @ [(cb, 2)],
                       tasks := (if is_async cb then tasks c @ [cb] else tasks c)\<rparr>)
      | Raises x \<Rightarrow>
          (if x = TypeError then
             (case invoke e cb ev 1 of
                Returns \<Rightarrow> (Returns, c\<lparr>calls := calls c @ [(cb, 2), (cb, 1)],
                       tasks := (if is_async cb then tasks c @ [cb] else tasks c)\<rparr>)
              | Raises y \<Rightarrow> (Raises y, c\<lparr>calls := calls c @ [(cb, 2), (cb, 1)]\<rparr>))
           else (Raises x, c\<lparr>calls := calls c @ [(cb, 2)]\<rparr>)))"
  by (cases "invoke e cb ev 2"; cases "invoke e cb ev 1")
     (simp_all add: call_callback_def Let_def split: pyexc.splits)




lemma on_frame_neq_on_request: "on_frame \<noteq> on_request"
  by (simp add: on_frame_def on_request_def)

lemma scenario_D:
  "listener noisy_env two_callbacks [Text (notification ''Page.frameNavigated'')] =
     (Continue, two_callbacks\<lparr>calls := [(on_frame, 2), (on_request, 2)],
        log := [CallbackFailed on_frame (OtherException ''boom'')]\<rparr>)"
  using on_frame_neq_on_request
  by (simp add: listener_step_def on_event_def notification_def noisy_env_def frame_event_def
      two_callbacks_def Connection_init_def call_callback_cases on_request_def)




section \<open>Correlation ids\<close>

lemma ids_inv_fields [simp]:
  "ids_inv (c\<lparr>connection_lock := b\<rparr>) = ids_inv c"
  "ids_inv (c\<lparr>websocket := w\<rparr>) = ids_inv c"
  "ids_inv (c\<lparr>listener_task := l\<rparr>) = ids_inv c"
  "ids_inv (c\<lparr>handlers := hs\<rparr>) = ids_inv c"
  "ids_inv (c\<lparr>enabled_domains := ds\<rparr>) = ids_inv c"
  "ids_inv (c\<lparr>log := lg\<rparr>) = ids_inv c"
  "ids_inv (c\<lparr>calls := cs\<rparr>) = ids_inv c"
  "ids_inv (c\<lparr>tasks := ts\<rparr>) = ids_inv c"
  "ids_inv (c\<lparr>finished := fs\<rparr>) = ids_inv c"
  by (simp_all add: ids_inv_def assigned_def)

lemma ids_inv_forget: "ids_inv c \<Longrightarrow> ids_inv (c\<lparr>mapper := (mapper c)(i := None)\<rparr>)"
  by (simp add: ids_inv_def assigned_def)

lemma map_filter_append: "List.map_filter f (xs @ ys) = List.map_filter f xs @ List.map_filter f ys"
  by (simp add: List.map_filter_def)

lemma assign_id_effect:
  "assign_id c tx = (tx\<lparr>tx_id := Some (count c)\<rparr>,
      c\<lparr>count := count c + 1, mapper := (mapper c)(count c \<mapsto> tx\<lparr>tx_id := Some (count c)\<rparr>)\<rparr>)"
  by (simp add: assign_id_def Let_def)

lemma transmit_assigned:
  "assigned (snd (transmit e c cdp)) = assigned c @ [count c] \<and>
   count (snd (transmit e c cdp)) = count c + 1"
  by (simp add: transmit_def assign_id_effect Let_def assigned_def map_filter_simps tx_message_def
      map_filter_append split: fate.splits)

lemma transmit_mapper:
  "mapper (snd (transmit e c cdp)) =
     (case peer e (count c) of
        Replied v \<Rightarrow> (mapper c)(count c := None)
      | Rejected x \<Rightarrow> (mapper c)(count c := None)
      | SendFailed \<Rightarrow> (mapper c)(count c \<mapsto> (Transaction_init cdp)\<lparr>tx_id := Some (count c)\<rparr>)
      | NoReply \<Rightarrow> (mapper c)(count c \<mapsto> (Transaction_init cdp)\<lparr>tx_id := Some (count c)\<rparr>))"
  by (simp add: transmit_def assign_id_effect Let_def split: fate.splits)

lemma transmit_ids_inv: "ids_inv c \<Longrightarrow> ids_inv (snd (transmit e c cdp))"
proof -
  assume a: "ids_inv c"
  have m: "mapper (snd (transmit e c cdp)) (count c + 1 + int k) = None" for k
  proof -
    from a have "mapper c (count c + int (Suc k)) = None" unfolding ids_inv_def by blast
    then show ?thesis by (simp add: transmit_mapper add.assoc split: fate.splits)
  qed
  from a m transmit_assigned [of e c cdp] show ?thesis
    by (auto simp: ids_inv_def sorted_wrt_append list_all_iff)
qed

lemma rollback_ids_inv: "ids_inv c \<Longrightarrow> ids_inv (rollback d c)"
  by (simp add: rollback_def)

lemma reconcile_ids_inv:
  assumes nested: "\<And>c cdp. ids_inv c \<Longrightarrow> ids_inv (snd (nested c cdp))"
  shows "ids_inv c \<Longrightarrow> ids_inv (snd (reconcile nested e ks tmp c))"
proof (induction ks arbitrary: tmp c)
  case Nil
  then show ?case by simp
next
  case (Cons k ks)
  let ?d = "domain_of e k"
  let ?c1 = "c\<lparr>enabled_domains := enabled_domains c @ [?d], log := log c @ [Registered ?d]\<rparr>"
  have c1: "ids_inv ?c1" using Cons.prems by simp
  show ?case
  proof (cases "map_of (handlers c) k = None \<or> ?d \<in> set (enabled_domains c) \<or>
      ?d \<in> {Some cdp_target, Some cdp_storage}")
    case True
    then show ?thesis using Cons.IH [OF Cons.prems] by (auto simp: Let_def)
  next
    case False
    show ?thesis
    proof (cases "case ?d of None \<Rightarrow> None | Some d \<Rightarrow> enable e d")
      case None
      with False show ?thesis
        using Cons.IH [OF rollback_ids_inv [OF c1]] by (auto simp: Let_def)
    next
      case (Some cdp)
      obtain r c2 where t: "nested ?c1 cdp = (r, c2)" by (cases "nested ?c1 cdp")
      from nested [OF c1, of cdp] t have c2: "ids_inv c2" by simp
      from False Some t show ?thesis
        using Cons.IH [OF c2] Cons.IH [OF rollback_ids_inv [OF c2]] c2
        by (cases r) (auto simp: Let_def)
    qed
  qed
qed

lemma register_handlers_with_ids_inv:
  assumes nested: "\<And>c cdp. ids_inv c \<Longrightarrow> ids_inv (snd (nested c cdp))"
    and a: "ids_inv c"
  shows "ids_inv (snd (register_handlers_with nested e c))"
proof -
  let ?c0 = "c\<lparr>handlers := prune (map fst (handlers c)) (handlers c)\<rparr>"
  have "ids_inv ?c0" using a by simp
  from reconcile_ids_inv [of nested, OF nested this, of e "map fst (handlers c)" "enabled_domains c"]
  show ?thesis
    by (auto simp: register_handlers_with_def Let_def split: prod.splits res.splits)
qed

lemma with_connection_lock_ids_inv:
  assumes body: "\<And>c. ids_inv c \<Longrightarrow> ids_inv (snd (body c))"
    and a: "ids_inv c"
  shows "ids_inv (snd (with_connection_lock body c))"
proof -
  from a have "ids_inv (c\<lparr>connection_lock := True\<rparr>)" by simp
  from body [OF this] a show ?thesis
    by (auto simp: with_connection_lock_def split: prod.splits res.splits)
qed

lemma connect_unlocked_ids_inv: "ids_inv c \<Longrightarrow> ids_inv (snd (connect_unlocked e c))"
proof -
  assume a: "ids_inv c"
  have "ids_inv (c\<lparr>websocket := Some None, listener_task := True\<rparr>)" using a by simp
  from register_handlers_with_ids_inv [of blocked, OF _ this, of e] a show ?thesis
    by (auto simp: connect_unlocked_def blocked_def)
qed

lemma connect_ids_inv: "ids_inv c \<Longrightarrow> ids_inv (snd (connect e c))"
  unfolding connect_def by (rule with_connection_lock_ids_inv) (rule connect_unlocked_ids_inv)

lemma send_update_ids_inv: "ids_inv c \<Longrightarrow> ids_inv (snd (send_update e c cdp))"
proof -
  assume a: "ids_inv c"
  obtain r c1 where c: "connect e c = (r, c1)" by (cases "connect e c")
  with connect_ids_inv [OF a, of e] have c1: "ids_inv c1" by simp
  from c c1 transmit_ids_inv [OF c1, of e cdp] show ?thesis
    by (cases r) (simp_all add: send_update_def)
qed

lemma register_handlers_ids_inv: "ids_inv c \<Longrightarrow> ids_inv (snd (register_handlers e c))"
  unfolding register_handlers_def
  by (rule register_handlers_with_ids_inv) (rule send_update_ids_inv)

lemma send_ids_inv: "ids_inv c \<Longrightarrow> ids_inv (snd (send e c cdp u))"
proof (cases u)
  case True
  assume "ids_inv c"
  with True send_update_ids_inv [of c e cdp] show ?thesis by (simp add: send_def)
next
  case False
  assume a: "ids_inv c"
  obtain r c1 where c: "connect e c = (r, c1)" by (cases "connect e c")
  with connect_ids_inv [OF a, of e] have c1: "ids_inv c1" by simp
  obtain r2 c2 where g: "register_handlers e c1 = (r2, c2)" by (cases "register_handlers e c1")
  with register_handlers_ids_inv [OF c1, of e] have c2: "ids_inv c2" by simp
  from False c g c1 c2 transmit_ids_inv [OF c2, of e cdp]
  show ?thesis
    by (cases r; cases r2) (simp_all add: send_def)
qed

lemma disconnect_ids_inv: "ids_inv c \<Longrightarrow> ids_inv (snd (disconnect c))"
  unfolding disconnect_def
  by (rule with_connection_lock_ids_inv) (simp_all add: disconnect_body_def split: option.splits)

lemma call_callback_ids_inv: "ids_inv c \<Longrightarrow> ids_inv (snd (call_callback e ev cb c))"
  by (simp add: call_callback_cases split: outcome.splits)

lemma run_callbacks_ids_inv: "ids_inv c \<Longrightarrow> ids_inv (snd (run_callbacks e ev cbs c))"
proof (induction cbs arbitrary: c)
  case Nil
  then show ?case by simp
next
  case (Cons cb cbs)
  obtain r c1 where cc: "call_callback e ev cb c = (r, c1)"
    by (cases "call_callback e ev cb c")
  from call_callback_ids_inv [OF Cons.prems, of e ev cb] cc have c1: "ids_inv c1" by simp
  then have c2: "ids_inv (c1\<lparr>log := log c1 @ [CallbackFailed cb x]\<rparr>)" for x by simp
  from cc c1 Cons.IH [OF c1] Cons.IH [OF c2] show ?case by (cases r) auto
qed

lemma listener_step_ids_inv:
  assumes a: "ids_inv c"
  shows "ids_inv (snd (listener_step e c r))"
proof (cases r)
  case (Text msg)
  have ev: "ids_inv (snd (on_event e c msg))"
    using run_callbacks_ids_inv [OF a, of e] a
    by (auto simp: on_event_def Let_def split: sum.splits option.splits)
  have rp: "ids_inv (snd (on_reply c i msg))" for i
    using ids_inv_forget [OF a, of i] a
    by (auto simp: on_reply_def Let_def split: sum.splits option.splits)
  from Text ev rp show ?thesis
    by (cases "msg_id msg") (simp_all add: listener_step_def)
next
  case RecvClosedOK
  with disconnect_ids_inv [OF a] show ?thesis
    by (auto simp: listener_step_def split: prod.splits res.splits)
next
  case RecvClosed
  with disconnect_ids_inv [OF a] show ?thesis
    by (auto simp: listener_step_def split: prod.splits res.splits)
qed (use a in \<open>simp_all add: listener_step_def\<close>)

lemma apply_op_ids_inv:
  assumes "ids_inv c"
  shows "ids_inv (apply_op e x c)"
proof (cases x)
  case Connect
  with connect_ids_inv [OF assms] show ?thesis by simp
next
  case Disconnect
  with disconnect_ids_inv [OF assms] show ?thesis by simp
next
  case (Send cdp)
  with send_ids_inv [OF assms] show ?thesis by simp
next
  case (SendOneshot cdp)
  with send_ids_inv [OF assms] show ?thesis by (simp add: send_oneshot_def)
next
  case (AddHandler t h)
  with assms show ?thesis by (simp add: add_handler_def)
next
  case (RemoveHandler t h)
  with assms show ?thesis by (simp add: remove_handler_def Let_def)
next
  case (Receive r)
  with listener_step_ids_inv [OF assms] show ?thesis by simp
next
  case (TaskDone r)
  with assms show ?thesis
    by (simp add: handle_handler_task_result_def split: outcome.splits)
qed

lemma run_ids_inv: "ids_inv c \<Longrightarrow> ids_inv (run steps c)"
  unfolding run_def
  by (induction steps arbitrary: c) (auto simp: apply_op_ids_inv)

lemma sorted_wrt_less_distinct: "sorted_wrt (<) (xs :: int list) \<Longrightarrow> distinct xs"
  by (induction xs) auto

lemma Connection_init_ids_inv: "ids_inv Connection_init"
  by (simp add: ids_inv_def assigned_def Connection_init_def List.map_filter_def)


lemma assigned_fields [simp]:
  "assigned (c\<lparr>connection_lock := b\<rparr>) = assigned c"
  "assigned (c\<lparr>websocket := w\<rparr>) = assigned c"
  "assigned (c\<lparr>listener_task := l\<rparr>) = assigned c"
  "assigned (c\<lparr>handlers := hs\<rparr>) = assigned c"
  "assigned (c\<lparr>enabled_domains := ds\<rparr>) = assigned c"
  "assigned (c\<lparr>log := lg\<rparr>) = assigned c"
  "assigned (c\<lparr>calls := cs\<rparr>) = assigned c"
  "assigned (c\<lparr>tasks := ts\<rparr>) = assigned c"
  "assigned (c\<lparr>finished := fs\<rparr>) = assigned c"
  "assigned (c\<lparr>mapper := m\<rparr>) = assigned c"
  "assigned (c\<lparr>count := n\<rparr>) = assigned c"
  by (simp_all add: assigned_def)

lemma transmit_grows: "prefix (assigned c) (assigned (snd (transmit e c cdp)))"
  by (simp add: transmit_assigned)

lemma reconcile_grows:
  assumes nested: "\<And>c cdp. prefix (assigned c) (assigned (snd (nested c cdp)))"
  shows "prefix (assigned c) (assigned (snd (reconcile nested e ks tmp c)))"
proof (induction ks arbitrary: tmp c)
  case Nil
  then show ?case by simp
next
  case (Cons k ks)
  let ?d = "domain_of e k"
  let ?c1 = "c\<lparr>enabled_domains := enabled_domains c @ [?d], log := log c @ [Registered ?d]\<rparr>"
  show ?case
  proof (cases "map_of (handlers c) k = None \<or> ?d \<in> set (enabled_domains c) \<or>
      ?d \<in> {Some cdp_target, Some cdp_storage}")
    case True
    then show ?thesis using Cons.IH by (auto simp: Let_def)
  next
    case False
    show ?thesis
    proof (cases "case ?d of None \<Rightarrow> None | Some d \<Rightarrow> enable e d")
      case None
      with False show ?thesis
        using Cons.IH [where c = "rollback ?d ?c1"] by (auto simp: Let_def rollback_def)
    next
      case (Some cdp)
      obtain r c2 where t: "nested ?c1 cdp = (r, c2)" by (cases "nested ?c1 cdp")
      from nested [of ?c1 cdp] t have c2: "prefix (assigned c) (assigned c2)" by simp
      have "prefix (assigned c) (assigned (snd (reconcile nested e ks tmp c2)))"
        using c2 Cons.IH [where c = c2] by (rule prefix_order.trans)
      moreover have "prefix (assigned c) (assigned (snd (reconcile nested e ks tmp (rollback ?d c2))))"
      proof -
        have "assigned (rollback ?d c2) = assigned c2" by (simp add: rollback_def)
        with c2 have "prefix (assigned c) (assigned (rollback ?d c2))" by simp
        then show ?thesis using Cons.IH [where c = "rollback ?d c2"] by (rule prefix_order.trans)
      qed
      ultimately show ?thesis using False Some t c2
        by (cases r) (auto simp: Let_def)
    qed
  qed
qed

lemma register_handlers_with_grows:
  assumes nested: "\<And>c cdp. prefix (assigned c) (assigned (snd (nested c cdp)))"
  shows "prefix (assigned c) (assigned (snd (register_handlers_with nested e c)))"
  using reconcile_grows [of nested "c\<lparr>handlers := prune (map fst (handlers c)) (handlers c)\<rparr>" e
      "map fst (handlers c)" "enabled_domains c", OF nested]
  by (auto simp: register_handlers_with_def Let_def split: prod.splits res.splits)

lemma with_connection_lock_grows:
  assumes body: "\<And>c. prefix (assigned c) (assigned (snd (body c)))"
  shows "prefix (assigned c) (assigned (snd (with_connection_lock body c)))"
  using body [of "c\<lparr>connection_lock := True\<rparr>"]
  by (auto simp: with_connection_lock_def split: prod.splits res.splits)

lemma connect_unlocked_grows: "prefix (assigned c) (assigned (snd (connect_unlocked e c)))"
  using register_handlers_with_grows [of blocked "c\<lparr>websocket := Some None, listener_task := True\<rparr>" e]
  by (auto simp: connect_unlocked_def blocked_def)

lemma connect_grows: "prefix (assigned c) (assigned (snd (connect e c)))"
  unfolding connect_def by (rule with_connection_lock_grows) (rule connect_unlocked_grows)

lemma send_update_grows: "prefix (assigned c) (assigned (snd (send_update e c cdp)))"
proof -
  obtain r c1 where c: "connect e c = (r, c1)" by (cases "connect e c")
  with connect_grows [of c e] have c1: "prefix (assigned c) (assigned c1)" by simp
  from c1 transmit_grows [of c1 e cdp]
  have "prefix (assigned c) (assigned (snd (transmit e c1 cdp)))" by (rule prefix_order.trans)
  with c c1 show ?thesis by (cases r) (simp_all add: send_update_def)
qed

lemma register_handlers_grows: "prefix (assigned c) (assigned (snd (register_handlers e c)))"
  unfolding register_handlers_def
  by (rule register_handlers_with_grows) (rule send_update_grows)

lemma send_grows: "prefix (assigned c) (assigned (snd (send e c cdp u)))"
proof (cases u)
  case True
  with send_update_grows [of c e cdp] show ?thesis by (simp add: send_def)
next
  case False
  obtain r c1 where c: "connect e c = (r, c1)" by (cases "connect e c")
  with connect_grows [of c e] have c1: "prefix (assigned c) (assigned c1)" by simp
  obtain r2 c2 where g: "register_handlers e c1 = (r2, c2)" by (cases "register_handlers e c1")
  with register_handlers_grows [of c1 e] have "prefix (assigned c1) (assigned c2)" by simp
  with c1 have c2: "prefix (assigned c) (assigned c2)" by (rule prefix_order.trans)
  from c2 transmit_grows [of c2 e cdp]
  have "prefix (assigned c) (assigned (snd (transmit e c2 cdp)))" by (rule prefix_order.trans)
  with False c g c1 c2 show ?thesis
    by (cases r; cases r2) (simp_all add: send_def)
qed

lemma disconnect_grows: "prefix (assigned c) (assigned (snd (disconnect c)))"
  unfolding disconnect_def
  by (rule with_connection_lock_grows) (simp add: disconnect_body_def split: option.splits)

lemma call_callback_assigned: "assigned (snd (call_callback e ev cb c)) = assigned c"
  by (simp add: call_callback_cases split: outcome.splits)

lemma run_callbacks_assigned: "assigned (snd (run_callbacks e ev cbs c)) = assigned c"
proof (induction cbs arbitrary: c)
  case Nil
  then show ?case by simp
next
  case (Cons cb cbs)
  obtain r c1 where cc: "call_callback e ev cb c = (r, c1)"
    by (cases "call_callback e ev cb c")
  from call_callback_assigned [of e ev cb c] cc have c1: "assigned c1 = assigned c" by simp
  from cc c1 Cons.IH [where c = c1] Cons.IH [where c = "c1\<lparr>log := log c1 @ [CallbackFailed cb x]\<rparr>" for x]
  show ?case by (cases r) auto
qed

lemma listener_step_grows: "prefix (assigned c) (assigned (snd (listener_step e c r)))"
proof (cases r)
  case (Text msg)
  have ev: "assigned (snd (on_event e c msg)) = assigned c"
    using run_callbacks_assigned [of e _ _ c]
    by (auto simp: on_event_def Let_def split: sum.splits option.splits)
  have rp: "assigned (snd (on_reply c i msg)) = assigned c" for i
    by (auto simp: on_reply_def Let_def split: sum.splits option.splits)
  from Text ev rp show ?thesis
    by (cases "msg_id msg") (simp_all add: listener_step_def)
next
  case RecvClosedOK
  with disconnect_grows [of c] show ?thesis
    by (auto simp: listener_step_def split: prod.splits res.splits)
next
  case RecvClosed
  with disconnect_grows [of c] show ?thesis
    by (auto simp: listener_step_def split: prod.splits res.splits)
qed (simp_all add: listener_step_def)

lemma apply_op_grows: "prefix (assigned c) (assigned (apply_op e x c))"
proof (cases x)
  case Connect
  with connect_grows show ?thesis by simp
next
  case Disconnect
  with disconnect_grows show ?thesis by simp
next
  case (Send cdp)
  with send_grows show ?thesis by simp
next
  case (SendOneshot cdp)
  with send_grows show ?thesis by (simp add: send_oneshot_def)
next
  case (AddHandler t h)
  then show ?thesis by (simp add: add_handler_def)
next
  case (RemoveHandler t h)
  then show ?thesis by (simp add: remove_handler_def Let_def)
next
  case (Receive r)
  with listener_step_grows show ?thesis by simp
next
  case (TaskDone r)
  then show ?thesis
    by (simp add: handle_handler_task_result_def split: outcome.splits)
qed

lemma run_grows: "prefix (assigned c) (assigned (run steps c))"
proof (induction steps arbitrary: c)
  case Nil
  then show ?case by (simp add: run_def)
next
  case (Cons s steps)
  obtain e x where s: "s = (e, x)" by (cases s)
  have "run (s # steps) c = run steps (apply_op e x c)" by (simp add: run_def s)
  with apply_op_grows [of c e x] Cons.IH [of "apply_op e x c"] show ?case
    by (auto elim: prefix_order.trans)
qed

lemma run_append: "run (xs @ ys) c = run ys (run xs c)"
  by (simp add: run_def)

lemma three_sends:
  "assigned (run three_steps Connection_init) = [0, 1, 2] \<and>
   count (run three_steps Connection_init) = 3"
  by (simp add: three_steps_def run_def send_def send_update_def connect_def with_connection_lock_def
      connect_unlocked_def closed_def Connection_init_def quiet_env_def
      register_handlers_def register_handlers_with_def transmit_def assign_id_def Let_def assigned_def
      List.map_filter_def tx_message_def
      add_handler_def dd_append_def drop_unused_def domain_of_def FrameNavigated_def
      cdp_target_def cdp_storage_def)

text \<open>
  Claim C8: take any state a connection reaches from its construction, by any sequence
  of sends, registrations, received frames, connects and disconnects. The ids assigned
  so far, in the order of assignment, increase strictly, none occurs twice, each lies
  below the counter, and whatever the connection does next they stay the beginning of
  the list of assigned ids, which goes on increasing strictly. The pending table holds no Transaction under the value of
  the counter or any later one. The locked block of \<^verbatim>\<open>send\<close> gives the Transaction the
  value of the counter as its id, stores it in the pending table under that id and moves
  the counter on by one. A transmission puts exactly that id on the wire, after all
  earlier ones, and leaves the Transaction in the pending table under it unless the
  reply has arrived.
\<close>

theorem ids_strictly_increasing:
  "let c = run steps Connection_init;
       tx = fst (assign_id c tx0);
       c1 = snd (assign_id c tx0);
       c2 = snd (transmit e c cdp)
   in sorted_wrt (<) (assigned c) \<and> distinct (assigned c) \<and>
      list_all (\<lambda>i. i < count c) (assigned c) \<and>
      prefix (assigned c) (assigned (run later c)) \<and>
      sorted_wrt (<) (assigned (run later c)) \<and>
      mapper c (count c + int k) = None \<and>
      tx_id tx = Some (count c) \<and> mapper c1 (count c) = Some tx \<and> count c1 = count c + 1 \<and>
      assigned c2 = assigned c @ [count c] \<and> count c2 = count c + 1 \<and>
      mapper c2 (count c) =
        (case peer e (count c) of
           Replied v \<Rightarrow> None
         | Rejected x \<Rightarrow> None
         | SendFailed \<Rightarrow> Some ((Transaction_init cdp)\<lparr>tx_id := Some (count c)\<rparr>)
         | NoReply \<Rightarrow> Some ((Transaction_init cdp)\<lparr>tx_id := Some (count c)\<rparr>))"
proof -
  from run_ids_inv [OF Connection_init_ids_inv, of steps]
  have "ids_inv (run steps Connection_init)" .
  moreover from this have "ids_inv (run later (run steps Connection_init))"
    by (rule run_ids_inv)
  ultimately show ?thesis
    using run_grows [of "run steps Connection_init" later]
      transmit_assigned [of e "run steps Connection_init" cdp]
    by (simp add: Let_def ids_inv_def sorted_wrt_less_distinct assign_id_effect transmit_mapper
        split: fate.splits)
qed

theorem ids_strictly_increasing_witness:
  "assigned (run three_steps Connection_init) = [0, 1, 2] \<and>
   count (run three_steps Connection_init) = 3 \<and>
   sorted_wrt (<) (assigned (run three_steps Connection_init)) \<and>
   distinct (assigned (run three_steps Connection_init)) \<and>
   assigned (snd (transmit quiet_env (run three_steps Connection_init) evaluate)) = [0, 1, 2, 3] \<and>
   mapper (snd (assign_id (run three_steps Connection_init) (Transaction_init evaluate))) 3 =
     Some ((Transaction_init evaluate)\<lparr>tx_id := Some 3\<rparr>)"
  using ids_strictly_increasing [of three_steps "Transaction_init evaluate" quiet_env evaluate "[]" 0]
    three_sends
  by (simp add: Let_def assign_id_effect)

section \<open>The connection lock\<close>

lemma send_update_locked: "connection_lock c \<Longrightarrow> send_update e c cdp = blocked c cdp"
  by (simp add: send_update_def connect_def with_connection_lock_def blocked_def)



text \<open>
  With the lock held, the pass with its own nested sends is the pass with blocked ones:
  this is the pass that \<^verbatim>\<open>_connect_unlocked\<close> runs.
\<close>

lemma reconcile_locked:
  "connection_lock c \<Longrightarrow>
   reconcile (send_update e) e ks tmp c = reconcile blocked e ks tmp c"
proof (induction ks arbitrary: tmp c)
  case Nil
  then show ?case by simp
next
  case (Cons k ks)
  let ?d = "domain_of e k"
  let ?c1 = "c\<lparr>enabled_domains := enabled_domains c @ [?d], log := log c @ [Registered ?d]\<rparr>"
  have l1: "connection_lock ?c1" using Cons.prems by simp
  then have l2: "connection_lock (rollback ?d ?c1)" by (simp add: rollback_def)
  have n: "send_update e ?c1 cdp = blocked ?c1 cdp" for cdp
    using l1 by (rule send_update_locked)
  show ?case
    using Cons.IH [OF Cons.prems] Cons.IH [OF l2]
    by (simp add: Let_def n blocked_def split: option.splits)
qed

lemma register_handlers_locked:
  "connection_lock c \<Longrightarrow> register_handlers e c = register_handlers_with blocked e c"
  by (simp add: register_handlers_def register_handlers_with_def reconcile_locked)

text \<open>
  A callback registered before the first \<^verbatim>\<open>send\<close>: the pass that \<^verbatim>\<open>_connect_unlocked\<close>
  runs wants to enable its namespace, the nested send waits for the lock that the outer
  send holds, and nothing is ever sent.
\<close>

lemma first_pass_blocks:
  "fst (send quiet_env (add_handler (One FrameNavigated) on_frame Connection_init) evaluate False)
     = Waits \<and>
   wire (snd (send quiet_env (add_handler (One FrameNavigated) on_frame Connection_init)
     evaluate False)) = []"
  by (simp add: send_def connect_def with_connection_lock_def connect_unlocked_def closed_def
      Connection_init_def quiet_env_def register_handlers_with_def blocked_def Let_def
      add_handler_def dd_append_def domain_of_def FrameNavigated_def cdp_target_def
      cdp_storage_def)

section \<open>The registry after a reconciliation pass\<close>

lemma map_of_delete: "map_of (AList.delete a hs) k = (if k = a then None else map_of hs k)"
  by (induction hs) auto

lemma map_of_prune:
  "map_of (prune ks hs) k =
     (if k \<in> set ks \<and> (map_of hs k = None \<or> map_of hs k = Some []) then None else map_of hs k)"
proof (induction ks arbitrary: hs)
  case Nil
  then show ?case by simp
next
  case (Cons a ks)
  show ?case
    by (cases "map_of hs a") (auto simp: Cons.IH map_of_delete)
qed

lemma has_callbacks_prune: "has_callbacks (prune ks hs) k = has_callbacks hs k"
  by (auto simp: has_callbacks_def map_of_prune split: option.splits)

lemma implied_image: "implied e hs = domain_of e ` {k. has_callbacks hs k}"
proof -
  have "has_callbacks hs k \<Longrightarrow> k \<in> fst ` set hs" for k
    by (auto simp: has_callbacks_def split: option.splits dest!: map_of_SomeD intro: rev_image_eqI)
  then show ?thesis by (auto simp: implied_def)
qed

lemma implied_prune: "implied e (prune ks hs) = implied e hs"
  by (simp add: implied_image has_callbacks_prune)











section \<open>The subscribed namespaces after a reconciliation pass\<close>
















end
